theory Spec2Isabelle
  imports Main
begin

section \<open>The tokenizer of lex-js (src/Tokenizer.js)\<close>

text \<open>
  The class \<^verbatim>\<open>Tokenizer\<close> is embedded function by function. The object's fields are a
  record, every method takes the object and returns it updated, a \<^verbatim>\<open>throw\<close> is an
  \<open>Inl\<close> result, and the generator \<^verbatim>\<open>_genTokens\<close> is the function that runs its
  body from one resumption to the next \<^verbatim>\<open>yield\<close>, \<^verbatim>\<open>return\<close> or
  \<^verbatim>\<open>throw\<close>.

  The regular-expression engine belongs to the JavaScript runtime, not to the repository.
  It is a parameter \<open>rx\<close> of the model: \<open>rx re s\<close> is \<open>Some m\<close> when
  \<^verbatim>\<open>s.match(re)\<close> is a match array whose element 0 is \<open>m\<close>, and \<open>None\<close> when it is
  \<^verbatim>\<open>null\<close>. It is taken to be a function of the pattern and the subject (no
  \<^verbatim>\<open>lastIndex\<close> state). So is the judgement whether a source is a valid pattern: it is
  a parameter \<open>compile\<close>, and \<open>compile src\<close> is \<open>None\<close> when
  \<^verbatim>\<open>new RegExp(src)\<close> returns a pattern and \<open>Some msg\<close> when it raises the SyntaxError
  with the message \<open>msg\<close>. Handlers are taken to be pure functions of the matched text.

  A string is a list of characters, one for each code unit of the JavaScript string.
  The cursor, the offsets and the line numbers only ever receive 0, 1 and sums of
  lengths: they are natural numbers. The columns are differences of offsets: they are
  integers.
\<close>

subsection \<open>Data\<close>

record regexp =
  source :: string
  flags :: string

text \<open>
  What a rule's handler returns: \<^verbatim>\<open>null\<close> or \<^verbatim>\<open>undefined\<close>, a token type, or
  an array whose element 0 is the token value and whose element 1 is the token type
  (possibly \<^verbatim>\<open>null\<close>). Token types and token values are taken to be strings.
\<close>

datatype handler_result = HNull | HType string | HArray string "string option"

type_synonym handler = "string \<Rightarrow> handler_result"

type_synonym rule = "regexp \<times> handler"

type_synonym matcher = "regexp \<Rightarrow> string \<Rightarrow> string option"

type_synonym compiler = "string \<Rightarrow> string option"

text \<open>
  The two shapes \<^verbatim>\<open>_processSpec\<close> accepts: an array of rules, or an object with a
  \<^verbatim>\<open>rules\<close> array and an \<^verbatim>\<open>options\<close> mapping beside it.
\<close>

datatype raw_spec = SpecArray "rule list" | SpecObject "rule list" "(string \<times> bool) list"

text \<open>A token is the object literal of \<^verbatim>\<open>_toToken\<close>: its properties in order.\<close>

datatype js_value = Str string | Num int

type_synonym token = "(string \<times> js_value) list"

datatype error = SyntaxError string | RangeError | TypeError

text \<open>
  A generator object is either suspended (at its start or at a \<^verbatim>\<open>yield\<close>; both
  resume at the test of the \<^verbatim>\<open>while\<close> loop) or completed, after its body has
  returned or thrown.
\<close>

datatype generator = Suspended | Completed

record tokenizer =
  spec :: "rule list"
  tokens :: "token list option"
  string :: string
  cursor :: nat
  currentLine :: nat
  currentColumn :: int
  currentLineBeginOffset :: nat
  tokenStartOffset :: nat
  tokenEndOffset :: nat
  tokenStartLine :: nat
  tokenEndLine :: nat
  tokenStartColumn :: int
  tokenEndColumn :: int
  gen :: generator

subsection \<open>Strings of the runtime\<close>

definition newline :: char where
  "newline = CHR 0x0A"

text \<open>\<^verbatim>\<open>s.split('\n')\<close>: the pieces between the newlines, at least one piece.\<close>

fun split_newline :: "string \<Rightarrow> string list" where
  "split_newline [] = [[]]"
| "split_newline (c # cs) =
     (if c = newline then [] # split_newline cs
      else (c # hd (split_newline cs)) # tl (split_newline cs))"

text \<open>The decimal text of a number in a template literal.\<close>

fun show_nat :: "nat \<Rightarrow> string" where
  "show_nat n =
     (if n < 10 then [''0123456789'' ! n]
      else show_nat (n div 10) @ [''0123456789'' ! (n mod 10)])"

definition show_int :: "int \<Rightarrow> string" where
  "show_int i = (if i < 0 then CHR ''-'' # show_nat (nat (- i)) else show_nat (nat i))"

text \<open>\<^verbatim>\<open>string[0]\<close> inside a template literal: the first character, or the text
  \<^verbatim>\<open>undefined\<close> for the empty string.\<close>

definition first_char :: "string \<Rightarrow> string" where
  "first_char s = (case s of [] \<Rightarrow> ''undefined'' | c # _ \<Rightarrow> [c])"

subsection \<open>Spec normalization\<close>

text \<open>
  \<^verbatim>\<open>new RegExp(source)\<close>, called with one argument: the new pattern has no flags.
  The runtime raises a SyntaxError when the source is not a valid pattern without flags
  (a source taken from a pattern with the flag \<^verbatim>\<open>u\<close> need not be one).
\<close>

definition new_RegExp :: "compiler \<Rightarrow> string \<Rightarrow> error + regexp" where
  "new_RegExp compile src =
     (case compile src of
        Some msg \<Rightarrow> Inl (SyntaxError msg)
      | None \<Rightarrow> Inr \<lparr>source = src, flags = []\<rparr>)"

text \<open>
  \<open>anchor\<close> is the body of the loop of \<^verbatim>\<open>_processSpec\<close>, on the pattern of one
  entry. \<^verbatim>\<open>source[0]\<close> of an empty source is \<^verbatim>\<open>undefined\<close>, which is not
  \<^verbatim>\<open>'^'\<close>. \<open>processEntries\<close> is the loop: it stops at the first entry whose new
  pattern the runtime rejects.
\<close>

definition anchor :: "compiler \<Rightarrow> regexp \<Rightarrow> error + regexp" where
  "anchor compile re =
     (if (case source re of [] \<Rightarrow> True | c # _ \<Rightarrow> c \<noteq> CHR ''^'')
      then new_RegExp compile (CHR ''^'' # source re)
      else Inr re)"

fun processEntries :: "compiler \<Rightarrow> rule list \<Rightarrow> error + rule list" where
  "processEntries compile [] = Inr []"
| "processEntries compile ((re, h) # rest) =
     (case anchor compile re of
        Inl e \<Rightarrow> Inl e
      | Inr re' \<Rightarrow>
          (case processEntries compile rest of
             Inl e \<Rightarrow> Inl e
           | Inr rules \<Rightarrow> Inr ((re', h) # rules)))"

definition processSpec :: "compiler \<Rightarrow> raw_spec \<Rightarrow> error + rule list" where
  "processSpec compile raw =
     (let rules = (case raw of SpecObject rs opts \<Rightarrow> rs | SpecArray rs \<Rightarrow> rs)
      in processEntries compile rules)"

subsection \<open>Initialization\<close>

text \<open>
  \<^verbatim>\<open>this._tokens.length = 0\<close> empties the array; on \<^verbatim>\<open>null\<close> it is a
  TypeError.
\<close>

definition init :: "string \<Rightarrow> tokenizer \<Rightarrow> error + tokenizer" where
  "init s st =
     (case tokens st of
        None \<Rightarrow> Inl TypeError
      | Some ts \<Rightarrow>
          Inr (st\<lparr>string := s, cursor := 0, tokens := Some [],
                  currentLine := 1, currentColumn := 0, currentLineBeginOffset := 0,
                  tokenStartOffset := 0, tokenEndOffset := 0,
                  tokenStartLine := 1, tokenEndLine := 1,
                  tokenStartColumn := 0, tokenEndColumn := 0,
                  gen := Suspended\<rparr>))"

definition reset :: "tokenizer \<Rightarrow> error + tokenizer" where
  "reset st = init (string st) st"

text \<open>
  \<^verbatim>\<open>new Tokenizer(spec, string)\<close>. The constructor normalizes the spec (no object is
  built when that raises), sets \<^verbatim>\<open>_spec\<close> and
  \<^verbatim>\<open>_tokens\<close> and calls \<^verbatim>\<open>init\<close>, which sets every other field; the values
  \<open>blank\<close> gives to those fields are overwritten. \<^verbatim>\<open>Tokenizer.fromSpec(spec)\<close> followed
  by \<^verbatim>\<open>init(string)\<close> builds the same object. The object before its first
  \<^verbatim>\<open>init\<close> with a string (\<^verbatim>\<open>_string\<close> is \<^verbatim>\<open>null\<close>) is not modelled.
\<close>

definition blank :: "rule list \<Rightarrow> tokenizer" where
  "blank rules =
     \<lparr>spec = rules, tokens = Some [], string = [], cursor = 0,
      currentLine = 0, currentColumn = 0, currentLineBeginOffset = 0,
      tokenStartOffset = 0, tokenEndOffset = 0, tokenStartLine = 0,
      tokenEndLine = 0, tokenStartColumn = 0, tokenEndColumn = 0,
      gen = Suspended\<rparr>"

definition new_Tokenizer :: "compiler \<Rightarrow> raw_spec \<Rightarrow> string \<Rightarrow> error + tokenizer" where
  "new_Tokenizer compile raw s =
     (case processSpec compile raw of
        Inl e \<Rightarrow> Inl e
      | Inr rules \<Rightarrow> init s (blank rules))"

text \<open>
  The object an \<^verbatim>\<open>init\<close> that does not raise leaves behind, written out (lemma
  \<open>init_fresh\<close> below): only the rules survive an \<^verbatim>\<open>init\<close>.
\<close>

definition fresh :: "rule list \<Rightarrow> string \<Rightarrow> tokenizer" where
  "fresh rules s =
     \<lparr>spec = rules, tokens = Some [], string = s, cursor = 0,
      currentLine = 1, currentColumn = 0, currentLineBeginOffset = 0,
      tokenStartOffset = 0, tokenEndOffset = 0, tokenStartLine = 1,
      tokenEndLine = 1, tokenStartColumn = 0, tokenEndColumn = 0,
      gen = Suspended\<rparr>"

subsection \<open>Accessors\<close>

definition hasMoreTokens :: "tokenizer \<Rightarrow> bool" where
  "hasMoreTokens st \<longleftrightarrow> cursor st < length (string st)"

definition isEOF :: "tokenizer \<Rightarrow> bool" where
  "isEOF st \<longleftrightarrow> cursor st = length (string st)"

subsection \<open>Error reporting\<close>

text \<open>
  \<^verbatim>\<open>if (lineSource)\<close> holds for a line that exists and is not empty.
  \<^verbatim>\<open>' '.repeat(column)\<close> is a RangeError for a negative count.
\<close>

definition throwUnexpectedToken :: "tokenizer \<Rightarrow> string \<Rightarrow> nat \<Rightarrow> int \<Rightarrow> error" where
  \<open>throwUnexpectedToken st symbol line column =
     (let parts = split_newline (string st);
          lineSource = (if 1 \<le> line \<and> line - 1 < length parts
                        then Some (parts ! (line - 1)) else None);
          lineData =
            (case lineSource of
               None \<Rightarrow> Inr []
             | Some src \<Rightarrow>
                 if src = [] then Inr []
                 else if column < 0 then Inl RangeError
                 else Inr ([newline, newline] @ src @ [newline]
                           @ replicate (nat column) CHR '' '' @ ''^'' @ [newline]))
      in case lineData of
           Inl e \<Rightarrow> e
         | Inr d \<Rightarrow>
             SyntaxError (d @ ''Unexpected token: "'' @ symbol @ ''" '' @ ''at ''
                          @ show_nat line @ '':'' @ show_int column @ [newline]))\<close>

subsection \<open>Location capture and matching\<close>

text \<open>
  The loop over \<^verbatim>\<open>nlRe.exec(matched)\<close>: the characters of \<open>matched\<close> from index
  \<open>i\<close> on, one step for each newline found.
\<close>

fun scanNewlines :: "string \<Rightarrow> nat \<Rightarrow> tokenizer \<Rightarrow> tokenizer" where
  "scanNewlines [] i st = st"
| "scanNewlines (c # cs) i st =
     scanNewlines cs (i + 1)
       (if c = newline
        then st\<lparr>currentLine := currentLine st + 1,
                currentLineBeginOffset := tokenStartOffset st + i + 1\<rparr>
        else st)"

definition captureLocation :: "string \<Rightarrow> tokenizer \<Rightarrow> tokenizer" where
  "captureLocation matched st =
     (let st1 = st\<lparr>tokenStartOffset := cursor st\<rparr>;
          st2 = st1\<lparr>tokenStartLine := currentLine st1,
                    tokenStartColumn := int (tokenStartOffset st1)
                                        - int (currentLineBeginOffset st1)\<rparr>;
          st3 = scanNewlines matched 0 st2;
          st4 = st3\<lparr>tokenEndOffset := cursor st3 + length matched\<rparr>;
          st5 = st4\<lparr>tokenEndLine := currentLine st4\<rparr>;
          col = int (tokenEndOffset st5) - int (currentLineBeginOffset st5)
      in st5\<lparr>tokenEndColumn := col, currentColumn := col\<rparr>)"

definition match :: "matcher \<Rightarrow> string \<Rightarrow> regexp \<Rightarrow> tokenizer \<Rightarrow> string option \<times> tokenizer" where
  "match rx s regexp st =
     (case rx regexp s of
        Some m \<Rightarrow>
          (let st' = captureLocation m st
           in (Some m, st'\<lparr>cursor := cursor st' + length m\<rparr>))
      | None \<Rightarrow> (None, st))"

text \<open>The parameter default \<^verbatim>\<open>tokenValue = ''\<close> applies to an absent value.\<close>

definition toToken :: "tokenizer \<Rightarrow> string \<Rightarrow> string option \<Rightarrow> token" where
  "toToken st tokenType tokenValue =
     [(''type'', Str tokenType),
      (''value'', Str (case tokenValue of None \<Rightarrow> [] | Some v \<Rightarrow> v)),
      (''startOffset'', Num (int (tokenStartOffset st))),
      (''endOffset'', Num (int (tokenEndOffset st))),
      (''startLine'', Num (int (tokenStartLine st))),
      (''endLine'', Num (int (tokenEndLine st))),
      (''startColumn'', Num (tokenStartColumn st)),
      (''endColumn'', Num (tokenEndColumn st))]"

subsection \<open>Token production\<close>

text \<open>
  The \<^verbatim>\<open>for\<close> loop over the rules: the variables \<^verbatim>\<open>tokenType\<close> and
  \<^verbatim>\<open>tokenValue\<close> when it ends (\<open>None\<close> for \<^verbatim>\<open>null\<close> and
  \<^verbatim>\<open>undefined\<close>), and the object.
\<close>

fun scanRules ::
  "matcher \<Rightarrow> string \<Rightarrow> rule list \<Rightarrow> tokenizer \<Rightarrow> (string option \<times> string option) \<times> tokenizer"
where
  "scanRules rx s [] st = ((None, None), st)"
| "scanRules rx s ((regexp, handle) # rest) st =
     (case match rx s regexp st of
        (None, st') \<Rightarrow> scanRules rx s rest st'
      | (Some v, st') \<Rightarrow>
          (case handle v of
             HNull \<Rightarrow> ((None, Some v), st')
           | HType t \<Rightarrow> ((Some t, Some v), st')
           | HArray v' t \<Rightarrow> ((t, Some v'), st')))"

text \<open>
  One resumption of the generator body: \<open>Inr (Some tok)\<close> is \<^verbatim>\<open>yield tok\<close>,
  \<open>Inr None\<close> is the end of the loop, \<open>Inl e\<close> is \<^verbatim>\<open>throw e\<close>.
\<close>

definition genTokens :: "matcher \<Rightarrow> tokenizer \<Rightarrow> (error + token option) \<times> tokenizer" where
  "genTokens rx st =
     (if hasMoreTokens st then
        (let s = drop (cursor st) (string st)
         in case scanRules rx s (spec st) st of
              ((tokenType, tokenValue), st') \<Rightarrow>
                (case tokenType of
                   None \<Rightarrow>
                     (Inl (throwUnexpectedToken st' (first_char s)
                             (currentLine st') (currentColumn st')), st')
                 | Some t \<Rightarrow> (Inr (Some (toToken st' t tokenValue)), st')))
      else (Inr None, st))"

text \<open>
  \<^verbatim>\<open>this._gen.next().value\<close>: a completed generator answers \<^verbatim>\<open>undefined\<close>
  without running; a body that returns or throws completes the generator.
\<close>

definition getNextToken :: "matcher \<Rightarrow> tokenizer \<Rightarrow> (error + token option) \<times> tokenizer" where
  "getNextToken rx st =
     (case gen st of
        Completed \<Rightarrow> (Inr None, st)
      | Suspended \<Rightarrow>
          (case genTokens rx st of
             (Inr (Some tok), st') \<Rightarrow> (Inr (Some tok), st')
           | (Inr None, st') \<Rightarrow> (Inr None, st'\<lparr>gen := Completed\<rparr>)
           | (Inl e, st') \<Rightarrow> (Inl e, st'\<lparr>gen := Completed\<rparr>)))"

text \<open>
  \<^verbatim>\<open>[...this]\<close>: the generator is advanced until it is done. The loop need not end
  (a rule that matches the empty string never moves the cursor), so it runs on fuel:
  \<open>None\<close> is "still running when the fuel ran out".
\<close>

fun spread :: "nat \<Rightarrow> matcher \<Rightarrow> tokenizer \<Rightarrow> ((error + token list) \<times> tokenizer) option" where
  "spread 0 rx st = None"
| "spread (Suc n) rx st =
     (case getNextToken rx st of
        (Inl e, st') \<Rightarrow> Some (Inl e, st')
      | (Inr None, st') \<Rightarrow> Some (Inr [], st')
      | (Inr (Some tok), st') \<Rightarrow>
          (case spread n rx st' of
             None \<Rightarrow> None
           | Some (Inl e, st'') \<Rightarrow> Some (Inl e, st'')
           | Some (Inr toks, st'') \<Rightarrow> Some (Inr (tok # toks), st'')))"

definition getAllTokens ::
  "nat \<Rightarrow> matcher \<Rightarrow> tokenizer \<Rightarrow> ((error + token list) \<times> tokenizer) option"
where
  "getAllTokens fuel rx st =
     (case tokens st of
        None \<Rightarrow>
          (case spread fuel rx st of
             None \<Rightarrow> None
           | Some (Inl e, st') \<Rightarrow> Some (Inl e, st')
           | Some (Inr toks, st') \<Rightarrow> Some (Inr toks, st'\<lparr>tokens := Some toks\<rparr>))
      | Some toks \<Rightarrow> Some (Inr toks, st))"

subsection \<open>A regular-expression engine for the examples\<close>

text \<open>
  The examples below need a concrete engine. \<open>example_rx\<close> answers for five anchored
  patterns, each as JavaScript reads it on characters below 256, and answers "no match"
  for every other pattern:
  \<^verbatim>\<open>^\s+\<close>, \<^verbatim>\<open>^\d+\<close> and \<^verbatim>\<open>^\w+\<close> (the rules of the README),
  \<^verbatim>\<open>^[\s\S]+\<close> (any characters, newlines too) and \<^verbatim>\<open>^"[^"]*"\<close>
  (a quoted string).
\<close>

definition is_space :: "char \<Rightarrow> bool" where
  "is_space c \<longleftrightarrow>
     c \<in> set [CHR '' '', CHR 0x09, CHR 0x0A, CHR 0x0B, CHR 0x0C, CHR 0x0D, CHR 0xA0]"

definition is_digit :: "char \<Rightarrow> bool" where
  "is_digit c \<longleftrightarrow> c \<in> set ''0123456789''"

definition is_word :: "char \<Rightarrow> bool" where
  "is_word c \<longleftrightarrow>
     c \<in> set ''abcdefghijklmnopqrstuvwxyzABCDEFGHIJKLMNOPQRSTUVWXYZ0123456789_''"

text \<open>A greedy, non-empty run of characters of one class at the start of the subject.\<close>

definition run :: "(char \<Rightarrow> bool) \<Rightarrow> string \<Rightarrow> string option" where
  "run p s = (case takeWhile p s of [] \<Rightarrow> None | c # cs \<Rightarrow> Some (c # cs))"

definition dquote :: char where
  "dquote = CHR 0x22"

definition quoted :: "string \<Rightarrow> string option" where
  "quoted s =
     (case s of
        [] \<Rightarrow> None
      | c # cs \<Rightarrow>
          (let body = takeWhile (\<lambda>x. x \<noteq> dquote) cs
           in if c = dquote \<and> length body < length cs
              then Some (dquote # body @ [dquote]) else None))"

definition example_rx :: matcher where
  "example_rx re s =
     (if source re = [CHR ''^'', CHR 0x5C, CHR ''s'', CHR ''+''] then run is_space s
      else if source re = [CHR ''^'', CHR 0x5C, CHR ''d'', CHR ''+''] then run is_digit s
      else if source re = [CHR ''^'', CHR 0x5C, CHR ''w'', CHR ''+''] then run is_word s
      else if source re = [CHR ''^'', CHR ''['', CHR 0x5C, CHR ''s'', CHR 0x5C, CHR ''S'',
                             CHR '']'', CHR ''+''] then run (\<lambda>c. True) s
      else if source re = [CHR ''^'', dquote, CHR ''['', CHR ''^'', dquote, CHR '']'',
                             CHR ''*'', dquote] then quoted s
      else None)"

text \<open>
  The same engine's judgement of a source: it accepts the five patterns above and
  \<^verbatim>\<open>^abc\<close>, which are valid patterns, and rejects every other source, which no
  example reaches.
\<close>

definition example_compile :: compiler where
  "example_compile src =
     (if src \<in> set [[CHR ''^'', CHR 0x5C, CHR ''s'', CHR ''+''],
                     [CHR ''^'', CHR 0x5C, CHR ''d'', CHR ''+''],
                     [CHR ''^'', CHR 0x5C, CHR ''w'', CHR ''+''],
                     [CHR ''^'', CHR ''['', CHR 0x5C, CHR ''s'', CHR 0x5C, CHR ''S'',
                      CHR '']'', CHR ''+''],
                     [CHR ''^'', dquote, CHR ''['', CHR ''^'', dquote, CHR '']'',
                      CHR ''*'', dquote],
                     ''^abc'']
      then None else Some ''Invalid regular expression'')"

text \<open>
  What normalization on this engine makes of a pattern and of a spec (the pattern
  itself and no rules if the engine rejected them; lemma \<open>processSpec_examples\<close> shows
  that it accepts every spec of the examples).
\<close>

definition anchored :: "regexp \<Rightarrow> regexp" where
  "anchored re = (case anchor example_compile re of Inr re' \<Rightarrow> re' | Inl e \<Rightarrow> re)"

definition normalized :: "raw_spec \<Rightarrow> rule list" where
  "normalized raw = (case processSpec example_compile raw of Inr rules \<Rightarrow> rules | Inl e \<Rightarrow> [])"

subsection \<open>Specs and inputs of the examples\<close>

text \<open>
  The spec of the README and of the tests:
  \<^verbatim>\<open>[[/\s+/, v => 'WS'], [/\d+/, v => 'NUMBER'], [/\w+/, v => 'WORD']]\<close>.
\<close>

definition ws_rule :: rule where
  "ws_rule = (\<lparr>source = [CHR 0x5C, CHR ''s'', CHR ''+''], flags = []\<rparr>, \<lambda>v. HType ''WS'')"

definition number_rule :: rule where
  "number_rule = (\<lparr>source = [CHR 0x5C, CHR ''d'', CHR ''+''], flags = []\<rparr>, \<lambda>v. HType ''NUMBER'')"

definition word_rule :: rule where
  "word_rule = (\<lparr>source = [CHR 0x5C, CHR ''w'', CHR ''+''], flags = []\<rparr>, \<lambda>v. HType ''WORD'')"

definition defaultSpec :: raw_spec where
  "defaultSpec = SpecArray [ws_rule, number_rule, word_rule]"

text \<open>
  The spec file of the README's command-line example: the same rules in an object,
  beside \<^verbatim>\<open>options: {captureLocations: false}\<close>.
\<close>

definition example_lex :: raw_spec where
  "example_lex = SpecObject [ws_rule, number_rule, word_rule] [(''captureLocations'', False)]"

text \<open>A rule that matches any run of characters, newlines included: \<^verbatim>\<open>/[\s\S]+/\<close>.\<close>

definition any_rule :: rule where
  "any_rule = (\<lparr>source = [CHR ''['', CHR 0x5C, CHR ''s'', CHR 0x5C, CHR ''S'',
                            CHR '']'', CHR ''+''], flags = []\<rparr>, \<lambda>v. HType ''TEXT'')"

text \<open>The two-line input \<^verbatim>\<open>"a\nbb"\<close>.\<close>

definition two_lines :: string where
  "two_lines = [CHR ''a'', newline, CHR ''b'', CHR ''b'']"

text \<open>A rule whose handler returns \<^verbatim>\<open>null\<close>: \<^verbatim>\<open>[/\w+/, v => null]\<close>.\<close>

definition null_rule :: rule where
  "null_rule = (\<lparr>source = [CHR 0x5C, CHR ''w'', CHR ''+''], flags = []\<rparr>, \<lambda>v. HNull)"

text \<open>
  A rule for quoted strings whose handler strips the quotes and returns the pair of the
  new value and the type: \<^verbatim>\<open>[/"[^"]*"/, v => [v.slice(1, -1), 'STRING']]\<close>. The input
  \<^verbatim>\<open>"hi"\<close>, quotes included.
\<close>

definition string_rule :: rule where
  "string_rule =
     (\<lparr>source = [dquote, CHR ''['', CHR ''^'', dquote, CHR '']'', CHR ''*'', dquote],
       flags = []\<rparr>,
      \<lambda>v. HArray (butlast (tl v)) (Some ''STRING''))"


text \<open>A pattern with a flag, \<^verbatim>\<open>/abc/i\<close>, and a rule with it.\<close>

definition abc_i :: regexp where
  "abc_i = \<lparr>source = ''abc'', flags = ''i''\<rparr>"

definition abc_rule :: rule where
  "abc_rule = (abc_i, \<lambda>v. HType ''ABC'')"

text \<open>
  \<^verbatim>\<open>expectedTokensWithLocations\<close> of the tests, for the input \<^verbatim>\<open>"Score 250"\<close>, with
  the properties in the order in which \<^verbatim>\<open>_toToken\<close> writes them.
\<close>

definition expectedTokensWithLocations :: "token list" where
  "expectedTokensWithLocations =
     [[(''type'', Str ''WORD''), (''value'', Str ''Score''),
       (''startOffset'', Num 0), (''endOffset'', Num 5),
       (''startLine'', Num 1), (''endLine'', Num 1),
       (''startColumn'', Num 0), (''endColumn'', Num 5)],
      [(''type'', Str ''WS''), (''value'', Str '' ''),
       (''startOffset'', Num 5), (''endOffset'', Num 6),
       (''startLine'', Num 1), (''endLine'', Num 1),
       (''startColumn'', Num 5), (''endColumn'', Num 6)],
      [(''type'', Str ''NUMBER''), (''value'', Str ''250''),
       (''startOffset'', Num 6), (''endOffset'', Num 9),
       (''startLine'', Num 1), (''endLine'', Num 1),
       (''startColumn'', Num 6), (''endColumn'', Num 9)]]"

subsection \<open>Notions used to state the properties\<close>



text \<open>A handler result that leaves \<^verbatim>\<open>tokenType\<close> null or undefined.\<close>

fun no_type :: "handler_result \<Rightarrow> bool" where
  "no_type HNull = True"
| "no_type (HType t) = False"
| "no_type (HArray v None) = True"
| "no_type (HArray v (Some t)) = False"

text \<open>
  The relation between the cursor, the line-begin offset and the current column that
  holds after \<^verbatim>\<open>init\<close> and after every match (lemmas \<open>location_ok_fresh\<close> and
  \<open>location_ok_genTokens\<close>).
\<close>

definition location_ok :: "tokenizer \<Rightarrow> bool" where
  "location_ok st \<longleftrightarrow>
     currentLineBeginOffset st \<le> cursor st
     \<and> currentColumn st = int (cursor st) - int (currentLineBeginOffset st)"

text \<open>The names of the properties of a token object, in order.\<close>

definition keys :: "token \<Rightarrow> string list" where
  "keys tok = map fst tok"

text \<open>
  The \<^verbatim>\<open>(startOffset, endOffset)\<close> span and the \<^verbatim>\<open>value\<close> of a token object, when
  the properties are there with a number or a string in them.
\<close>

definition span :: "token \<Rightarrow> (int \<times> int) option" where
  "span tok =
     (case (map_of tok ''startOffset'', map_of tok ''endOffset'') of
        (Some (Num a), Some (Num b)) \<Rightarrow> Some (a, b)
      | _ \<Rightarrow> None)"



text \<open>Spans that follow one another from offset \<open>a\<close> to offset \<open>b\<close>.\<close>

fun contiguous :: "int \<Rightarrow> (int \<times> int) list \<Rightarrow> int \<Rightarrow> bool" where
  "contiguous a [] b \<longleftrightarrow> a = b"
| "contiguous a ((x, y) # r) b \<longleftrightarrow> x = a \<and> x \<le> y \<and> contiguous y r b"

subsection \<open>The newline loop in closed form\<close>

text \<open>
  A device for the proofs, not a function of the source: the line-begin offset that the
  loop of \<^verbatim>\<open>_captureLocation\<close> leaves, as a function of the text still to scan, the
  absolute offset \<open>p\<close> of that text's first character and the line-begin offset \<open>b\<close>
  so far. Lemma \<open>scanNewlines_closed\<close> ties it to \<open>scanNewlines\<close>.
\<close>

fun lineBeginAfter :: "string \<Rightarrow> nat \<Rightarrow> nat \<Rightarrow> nat" where
  "lineBeginAfter [] p b = b"
| "lineBeginAfter (c # cs) p b = lineBeginAfter cs (p + 1) (if c = newline then p + 1 else b)"

section \<open>Properties\<close>

subsection \<open>Evaluating the examples\<close>

lemmas example_defs =
  normalized_def processSpec_def defaultSpec_def ws_rule_def number_rule_def word_rule_def
  anchored_def anchor_def new_RegExp_def example_compile_def
  example_rx_def run_def is_space_def is_digit_def is_word_def dquote_def newline_def

lemmas engine_defs =
  genTokens_def hasMoreTokens_def match_def captureLocation_def toToken_def
  throwUnexpectedToken_def first_char_def show_int_def fresh_def Let_def

text \<open>The example engine accepts every spec of the examples.\<close>

lemma processSpec_examples:
  "processSpec example_compile defaultSpec = Inr (normalized defaultSpec)"
  "processSpec example_compile example_lex = Inr (normalized defaultSpec)"
  "processSpec example_compile (SpecArray [any_rule]) = Inr (normalized (SpecArray [any_rule]))"
  "processSpec example_compile (SpecArray [null_rule]) = Inr (normalized (SpecArray [null_rule]))"
  "processSpec example_compile (SpecArray [number_rule])
     = Inr (normalized (SpecArray [number_rule]))"
  "processSpec example_compile (SpecArray [string_rule])
     = Inr (normalized (SpecArray [string_rule]))"
  "processSpec example_compile (SpecArray [abc_rule]) = Inr (normalized (SpecArray [abc_rule]))"
  by (simp_all add: example_defs example_lex_def any_rule_def null_rule_def string_rule_def
        abc_rule_def abc_i_def)

lemma normalized_defaultSpec:
  "normalized defaultSpec
     = [(anchored (fst ws_rule), snd ws_rule), (anchored (fst number_rule), snd number_rule),
        (anchored (fst word_rule), snd word_rule)]"
  by (simp add: example_defs)

subsection \<open>The newline loop\<close>

lemma scanNewlines_fields:
  "spec (scanNewlines m i st) = spec st"
  "tokens (scanNewlines m i st) = tokens st"
  "string (scanNewlines m i st) = string st"
  "cursor (scanNewlines m i st) = cursor st"
  "currentColumn (scanNewlines m i st) = currentColumn st"
  "tokenStartOffset (scanNewlines m i st) = tokenStartOffset st"
  "tokenEndOffset (scanNewlines m i st) = tokenEndOffset st"
  "tokenStartLine (scanNewlines m i st) = tokenStartLine st"
  "tokenEndLine (scanNewlines m i st) = tokenEndLine st"
  "tokenStartColumn (scanNewlines m i st) = tokenStartColumn st"
  "tokenEndColumn (scanNewlines m i st) = tokenEndColumn st"
  "gen (scanNewlines m i st) = gen st"
  by (induction m arbitrary: i st; simp)+

lemma scanNewlines_line:
  "currentLine (scanNewlines m i st) = currentLine st + count_list m newline"
  by (induction m arbitrary: i st) simp_all

lemma scanNewlines_none:
  "newline \<notin> set m \<Longrightarrow> scanNewlines m i st = st"
  by (induction m arbitrary: i st) auto

lemma scanNewlines_last:
  "newline \<notin> set b \<Longrightarrow>
   currentLineBeginOffset (scanNewlines (a @ newline # b) i st)
     = tokenStartOffset st + i + length a + 1"
  by (induction a arbitrary: i st) (simp_all add: scanNewlines_none)

lemma scanNewlines_step:
  "scanNewlines (a @ newline # b) i st =
   scanNewlines b (i + length a + 1)
     ((scanNewlines a i st)\<lparr>currentLine := currentLine (scanNewlines a i st) + 1,
        currentLineBeginOffset := tokenStartOffset st + (i + length a) + 1\<rparr>)"
  by (induction a arbitrary: i st) (simp_all add: scanNewlines_fields)

lemma scanNewlines_closed:
  "scanNewlines m i st =
     st\<lparr>currentLine := currentLine st + count_list m newline,
        currentLineBeginOffset :=
          lineBeginAfter m (tokenStartOffset st + i) (currentLineBeginOffset st)\<rparr>"
  by (induction m arbitrary: i st) simp_all

subsection \<open>Matching one rule, scanning the rules\<close>

lemma match_None: "rx re s = None \<Longrightarrow> match rx s re st = (None, st)"
  by (simp add: match_def)

lemma match_Some_fst: "rx re s = Some m \<Longrightarrow> fst (match rx s re st) = Some m"
  by (simp add: match_def Let_def)

lemma match_Some_fields:
  assumes "rx re s = Some m"
  shows "spec (snd (match rx s re st)) = spec st"
    and "tokens (snd (match rx s re st)) = tokens st"
    and "string (snd (match rx s re st)) = string st"
    and "gen (snd (match rx s re st)) = gen st"
    and "cursor (snd (match rx s re st)) = cursor st + length m"
    and "tokenStartOffset (snd (match rx s re st)) = cursor st"
    and "tokenEndOffset (snd (match rx s re st)) = cursor st + length m"
    and "tokenStartLine (snd (match rx s re st)) = currentLine st"
    and "tokenStartColumn (snd (match rx s re st)) = int (cursor st) - int (currentLineBeginOffset st)"
    and "currentLine (snd (match rx s re st)) = currentLine st + count_list m newline"
    and "tokenEndLine (snd (match rx s re st)) = currentLine st + count_list m newline"
    and "tokenEndColumn (snd (match rx s re st)) =
           int (cursor st + length m) - int (currentLineBeginOffset (snd (match rx s re st)))"
    and "currentColumn (snd (match rx s re st)) =
           int (cursor st + length m) - int (currentLineBeginOffset (snd (match rx s re st)))"
  using assms
  by (simp_all add: match_def captureLocation_def Let_def scanNewlines_fields scanNewlines_line)

lemma match_Some_lineBegin_none:
  assumes "rx re s = Some m" and "newline \<notin> set m"
  shows "currentLineBeginOffset (snd (match rx s re st)) = currentLineBeginOffset st"
  using assms
  by (simp add: match_def captureLocation_def Let_def scanNewlines_none)

lemma match_Some_lineBegin_last:
  assumes "rx re s = Some (a @ newline # b)" and "newline \<notin> set b"
  shows "currentLineBeginOffset (snd (match rx s re st)) = cursor st + length a + 1"
  using assms
  by (simp add: match_def captureLocation_def Let_def scanNewlines_last)

lemma match_spec_update:
  "match rx s re (st\<lparr>spec := x\<rparr>) = (fst (match rx s re st), (snd (match rx s re st))\<lparr>spec := x\<rparr>)"
  by (simp add: match_def captureLocation_def Let_def scanNewlines_closed split: option.splits)

lemma scanRules_skip:
  "\<forall>(r, g) \<in> set pre. rx r s = None \<Longrightarrow>
   scanRules rx s (pre @ rules) st = scanRules rx s rules st"
  by (induction pre) (auto simp: match_None)

lemma scanRules_all_fail:
  "\<forall>(r, g) \<in> set rules. rx r s = None \<Longrightarrow> scanRules rx s rules st = ((None, None), st)"
  using scanRules_skip [of rules rx s "[]" st] by simp

lemma scanRules_hit:
  "rx re s = Some m \<Longrightarrow>
   scanRules rx s ((re, h) # post) st =
     (case h m of
        HNull \<Rightarrow> ((None, Some m), snd (match rx s re st))
      | HType t \<Rightarrow> ((Some t, Some m), snd (match rx s re st))
      | HArray v t \<Rightarrow> ((t, Some v), snd (match rx s re st)))"
  by (simp add: match_def Let_def split: handler_result.splits)

lemma first_match_cases:
  fixes rx :: matcher and rules :: "rule list"
  shows "(\<forall>(r, g) \<in> set rules. rx r s = None) \<or>
   (\<exists>pre re h post m. rules = pre @ (re, h) # post \<and>
      (\<forall>(r, g) \<in> set pre. rx r s = None) \<and> rx re s = Some m)"
proof (induction rules)
  case Nil
  then show ?case by simp
next
  case (Cons x rules)
  obtain re h where x: "x = (re, h)" by (cases x)
  show ?case
  proof (cases "rx re s")
    case None
    from Cons.IH show ?thesis
    proof
      assume "\<forall>(r, g) \<in> set rules. rx r s = None"
      with None x show ?thesis by simp
    next
      assume "\<exists>pre re h post m. rules = pre @ (re, h) # post \<and>
        (\<forall>(r, g) \<in> set pre. rx r s = None) \<and> rx re s = Some m"
      then obtain pre re' h' post m where
        "rules = pre @ (re', h') # post" "\<forall>(r, g) \<in> set pre. rx r s = None" "rx re' s = Some m"
        by blast
      with None x have "x # rules = (x # pre) @ (re', h') # post \<and>
        (\<forall>(r, g) \<in> set (x # pre). rx r s = None) \<and> rx re' s = Some m"
        by simp
      then show ?thesis by blast
    qed
  next
    case (Some m)
    with x have "x # rules = [] @ (re, h) # rules \<and>
        (\<forall>(r, g) \<in> set ([] :: rule list). rx r s = None) \<and> rx re s = Some m"
      by simp
    then show ?thesis by blast
  qed
qed

subsection \<open>Initialization\<close>

lemma init_fresh: "tokens st = Some ts \<Longrightarrow> init s st = Inr (fresh (spec st) s)"
  by (simp add: init_def fresh_def)

lemma init_Inr: "init s st = Inr st0 \<Longrightarrow> st0 = fresh (spec st) s"
  by (cases "tokens st") (auto simp add: init_def fresh_def)

lemma new_Tokenizer_fresh:
  "processSpec compile raw = Inr rules \<Longrightarrow> new_Tokenizer compile raw s = Inr (fresh rules s)"
  by (simp add: new_Tokenizer_def blank_def init_fresh)

lemma fresh_fields:
  "spec (fresh rules s) = rules"
  "tokens (fresh rules s) = Some []"
  "string (fresh rules s) = s"
  "cursor (fresh rules s) = 0"
  "currentLine (fresh rules s) = 1"
  "currentColumn (fresh rules s) = 0"
  "currentLineBeginOffset (fresh rules s) = 0"
  "gen (fresh rules s) = Suspended"
  by (simp_all add: fresh_def)

subsection \<open>One resumption of the generator\<close>

lemma genTokens_done: "\<not> hasMoreTokens st \<Longrightarrow> genTokens rx st = (Inr None, st)"
  by (simp add: genTokens_def)

lemma genTokens_no_match:
  assumes "hasMoreTokens st"
    and "\<forall>(r, g) \<in> set (spec st). rx r (drop (cursor st) (string st)) = None"
  shows "genTokens rx st =
           (Inl (throwUnexpectedToken st (first_char (drop (cursor st) (string st)))
                   (currentLine st) (currentColumn st)), st)"
  using assms by (simp add: genTokens_def scanRules_all_fail)

lemma genTokens_hit:
  assumes "hasMoreTokens st"
    and "spec st = pre @ (re, h) # post"
    and "\<forall>(r, g) \<in> set pre. rx r (drop (cursor st) (string st)) = None"
    and "rx re (drop (cursor st) (string st)) = Some m"
  shows "genTokens rx st =
           (let s = drop (cursor st) (string st); st' = snd (match rx s re st)
            in case h m of
                 HNull \<Rightarrow>
                   (Inl (throwUnexpectedToken st' (first_char s)
                           (currentLine st') (currentColumn st')), st')
               | HType t \<Rightarrow> (Inr (Some (toToken st' t (Some m))), st')
               | HArray v None \<Rightarrow>
                   (Inl (throwUnexpectedToken st' (first_char s)
                           (currentLine st') (currentColumn st')), st')
               | HArray v (Some t) \<Rightarrow> (Inr (Some (toToken st' t (Some v))), st'))"
proof -
  let ?s = "drop (cursor st) (string st)"
  have "scanRules rx ?s (spec st) st = scanRules rx ?s ((re, h) # post) st"
    using assms(2,3) scanRules_skip [of pre rx ?s "(re, h) # post" st] by simp
  also note scanRules_hit [of rx re ?s m h post st, OF assms(4)]
  finally show ?thesis
    using assms(1)
    by (simp add: genTokens_def Let_def split: handler_result.splits option.splits)
qed

lemma toToken_spec_update: "toToken (st\<lparr>spec := x\<rparr>) = toToken st"
  by (rule ext, rule ext) (simp add: toToken_def)

lemma throwUnexpectedToken_spec_update:
  "throwUnexpectedToken (st\<lparr>spec := x\<rparr>) = throwUnexpectedToken st"
  by (rule ext, rule ext, rule ext) (simp add: throwUnexpectedToken_def)

lemma hasMoreTokens_spec_update: "hasMoreTokens (st\<lparr>spec := x\<rparr>) = hasMoreTokens st"
  by (simp add: hasMoreTokens_def)

lemma span_toToken:
  "span (toToken st t v) = Some (int (tokenStartOffset st), int (tokenEndOffset st))"
  by (simp add: span_def toToken_def)


lemma genTokens_Inr_None: "genTokens rx st = (Inr None, st') \<Longrightarrow> \<not> hasMoreTokens st \<and> st' = st"
  by (auto simp add: genTokens_def Let_def split: if_splits prod.splits option.splits)

lemma genTokens_yield:
  fixes rx :: matcher
  assumes "genTokens rx st = (Inr (Some tok), st')"
  shows "hasMoreTokens st \<and>
         (\<exists>pre re h post m t v.
            spec st = pre @ (re, h) # post
          \<and> (\<forall>(r, g) \<in> set pre. rx r (drop (cursor st) (string st)) = None)
          \<and> rx re (drop (cursor st) (string st)) = Some m
          \<and> (h m = HType t \<and> v = m \<or> h m = HArray v (Some t))
          \<and> tok = toToken st' t (Some v)
          \<and> st' = snd (match rx (drop (cursor st) (string st)) re st))"
proof -
  let ?s = "drop (cursor st) (string st)"
  have more: "hasMoreTokens st"
    using assms by (cases "hasMoreTokens st") (simp_all add: genTokens_done)
  from first_match_cases [of "spec st" rx ?s]
  have "\<exists>pre re h post m. spec st = pre @ (re, h) # post \<and>
          (\<forall>(r, g) \<in> set pre. rx r ?s = None) \<and> rx re ?s = Some m"
  proof
    assume "\<forall>(r, g) \<in> set (spec st). rx r ?s = None"
    from genTokens_no_match [of st rx] more this assms show ?thesis by simp
  qed
  then obtain pre re h post m where d: "spec st = pre @ (re, h) # post"
    "\<forall>(r, g) \<in> set pre. rx r ?s = None" "rx re ?s = Some m"
    by blast
  from genTokens_hit [of st pre re h post rx m] more d assms
  have "\<exists>t v. (h m = HType t \<and> v = m \<or> h m = HArray v (Some t))
           \<and> tok = toToken st' t (Some v) \<and> st' = snd (match rx ?s re st)"
    by (cases "h m" rule: no_type.cases) (auto simp add: Let_def)
  with more d show ?thesis by blast
qed

lemma genTokens_yield_span:
  fixes rx :: matcher
  assumes "genTokens rx st = (Inr (Some tok), st')"
  shows "span tok = Some (int (cursor st), int (cursor st'))"
    and "cursor st \<le> cursor st'"
    and "string st' = string st" and "spec st' = spec st"
    and "gen st' = gen st" and "tokens st' = tokens st"
    and "\<forall>re s m. rx re s = Some m \<longrightarrow> length m \<le> length s \<Longrightarrow>
           cursor st' \<le> length (string st)"
proof -
  let ?s = "drop (cursor st) (string st)"
  from genTokens_yield [of rx st tok st'] assms obtain re m t v where
    more: "hasMoreTokens st" and m: "rx re ?s = Some m"
    and tok: "tok = toToken st' t (Some v)" and st': "st' = snd (match rx ?s re st)"
    by blast
  note f = match_Some_fields [of rx re ?s m st]
  show "span tok = Some (int (cursor st), int (cursor st'))"
    unfolding tok span_toToken unfolding st' using f(5,6,7) m by simp
  show "cursor st \<le> cursor st'" unfolding st' using f(5) m by simp
  show "string st' = string st" unfolding st' using f(3) m by simp
  show "spec st' = spec st" unfolding st' using f(1) m by simp
  show "gen st' = gen st" unfolding st' using f(4) m by simp
  show "tokens st' = tokens st" unfolding st' using f(2) m by simp
  show "cursor st' \<le> length (string st)"
    if "\<forall>re s m. rx re s = Some m \<longrightarrow> length m \<le> length s"
  proof -
    from that m have "length m \<le> length ?s" by blast
    with more show ?thesis unfolding st' using f(5) m by (simp add: hasMoreTokens_def)
  qed
qed

subsection \<open>The location invariant\<close>


lemma lineBeginAfter_le: "b \<le> p + length m \<Longrightarrow> lineBeginAfter m p b \<le> p + length m"
proof (induction m arbitrary: p b)
  case Nil
  then show ?case by simp
next
  case (Cons c m)
  have "(if c = newline then p + 1 else b) \<le> (p + 1) + length m"
    using Cons.prems by simp
  from Cons.IH [OF this] show ?case by simp
qed

lemma match_lineBegin_le:
  assumes "rx re s = Some m" and "currentLineBeginOffset st \<le> cursor st"
  shows "currentLineBeginOffset (snd (match rx s re st)) \<le> cursor st + length m"
  using assms lineBeginAfter_le [of "currentLineBeginOffset st" "cursor st" m]
  by (simp add: match_def captureLocation_def Let_def scanNewlines_closed)

lemma location_ok_match:
  assumes "rx re s = Some m" and "location_ok st"
  shows "location_ok (snd (match rx s re st))"
  using match_lineBegin_le [of rx re s m st] match_Some_fields(5,13) [of rx re s m st] assms
  by (simp add: location_ok_def)

lemma scanRules_location_ok:
  "location_ok st \<Longrightarrow> location_ok (snd (scanRules rx s rules st))"
proof (induction rules arbitrary: st)
  case Nil
  then show ?case by simp
next
  case (Cons x rules)
  obtain re h where x: "x = (re, h)" by (cases x)
  show ?case
  proof (cases "rx re s")
    case None
    with Cons x show ?thesis by (simp add: match_None)
  next
    case (Some m)
    from location_ok_match [of rx re s m st] Some Cons.prems
    have "location_ok (snd (match rx s re st))" by simp
    with Some x show ?thesis
      using scanRules_hit [of rx re s m h rules st]
      by (simp split: handler_result.splits)
  qed
qed

lemma location_ok_genTokens: "location_ok st \<Longrightarrow> location_ok (snd (genTokens rx st))"
  using scanRules_location_ok [of st rx "drop (cursor st) (string st)" "spec st"]
  by (auto simp add: genTokens_def Let_def split: prod.splits option.splits)

lemma location_ok_gen_update: "location_ok (st\<lparr>gen := g\<rparr>) = location_ok st"
  by (simp add: location_ok_def)

lemma location_ok_getNextToken: "location_ok st \<Longrightarrow> location_ok (snd (getNextToken rx st))"
  using location_ok_genTokens [of st rx]
  by (auto simp add: getNextToken_def location_ok_gen_update
           split: generator.splits prod.splits sum.splits option.splits)


subsection \<open>Advancing and draining the generator\<close>

lemma getNextToken_Suspended:
  "gen st = Suspended \<Longrightarrow>
   getNextToken rx st =
     (case genTokens rx st of
        (Inr (Some tok), st') \<Rightarrow> (Inr (Some tok), st')
      | (Inr None, st') \<Rightarrow> (Inr None, st'\<lparr>gen := Completed\<rparr>)
      | (Inl e, st') \<Rightarrow> (Inl e, st'\<lparr>gen := Completed\<rparr>))"
  by (simp add: getNextToken_def)

lemma getNextToken_Completed: "gen st = Completed \<Longrightarrow> getNextToken rx st = (Inr None, st)"
  by (simp add: getNextToken_def)

lemma getNextToken_Inl:
  assumes "getNextToken rx st = (Inl e, st')"
  shows "gen st = Suspended"
    and "\<exists>st1. genTokens rx st = (Inl e, st1) \<and> st' = st1\<lparr>gen := Completed\<rparr>"
proof -
  show s: "gen st = Suspended"
    using assms by (cases "gen st") (simp_all add: getNextToken_def)
  obtain r st1 where g: "genTokens rx st = (r, st1)" by (cases "genTokens rx st")
  with assms s show "\<exists>st1. genTokens rx st = (Inl e, st1) \<and> st' = st1\<lparr>gen := Completed\<rparr>"
    by (auto simp add: getNextToken_Suspended split: sum.splits option.splits)
qed

lemma funpow_getNextToken_Completed:
  "gen st = Completed \<Longrightarrow> ((\<lambda>s. snd (getNextToken rx s)) ^^ n) st = st"
  by (induction n) (simp_all add: getNextToken_Completed)

text \<open>The three ways one round of the draining loop can go.\<close>

lemma spread_Suc_cases:
  assumes "spread (Suc n) rx st = Some (Inr toks, st')" and "gen st = Suspended"
  shows "(toks = [] \<and> \<not> hasMoreTokens st \<and> st' = st\<lparr>gen := Completed\<rparr>)
       \<or> (\<exists>tok rest st1. toks = tok # rest \<and> genTokens rx st = (Inr (Some tok), st1)
             \<and> spread n rx st1 = Some (Inr rest, st'))"
proof -
  obtain r st1 where g: "genTokens rx st = (r, st1)" by (cases "genTokens rx st")
  show ?thesis
  proof (cases r)
    case (Inl e)
    with g assms show ?thesis by (simp add: getNextToken_Suspended)
  next
    case (Inr res)
    show ?thesis
    proof (cases res)
      case None
      with Inr g genTokens_Inr_None [of rx st st1] assms show ?thesis
        by (simp add: getNextToken_Suspended)
    next
      case (Some tok)
      with Inr g assms show ?thesis
        by (auto simp add: getNextToken_Suspended split: option.splits sum.splits)
    qed
  qed
qed

lemma contiguous_facts:
  "contiguous a spans b \<Longrightarrow>
     (spans = [] \<longrightarrow> a = b)
   \<and> (spans \<noteq> [] \<longrightarrow> fst (hd spans) = a \<and> snd (last spans) = b)
   \<and> (\<forall>i. Suc i < length spans \<longrightarrow> snd (spans ! i) = fst (spans ! Suc i))
   \<and> (\<forall>(x, y) \<in> set spans. x \<le> y)"
proof (induction spans arbitrary: a)
  case Nil
  then show ?case by simp
next
  case (Cons p spans)
  obtain x y where p: "p = (x, y)" by (cases p)
  from Cons.prems p have c: "x = a" "x \<le> y" "contiguous y spans b" by simp_all
  note IH = Cons.IH [OF c(3)]
  have "snd ((p # spans) ! i) = fst ((p # spans) ! Suc i)" if "Suc i < length (p # spans)" for i
  proof (cases i)
    case 0
    with that IH p show ?thesis by (cases spans) auto
  next
    case (Suc j)
    with that IH show ?thesis by simp
  qed
  moreover have "fst (hd (p # spans)) = a" using p c by simp
  moreover have "snd (last (p # spans)) = b" using IH p by (cases spans) auto
  moreover have "\<forall>(x, y) \<in> set (p # spans). x \<le> y" using IH p c by simp
  ultimately show ?case by simp
qed

lemma spread_spans:
  fixes rx :: matcher
  assumes within: "\<forall>re s m. rx re s = Some m \<longrightarrow> length m \<le> length s"
  shows "spread fuel rx st = Some (Inr toks, st') \<Longrightarrow> gen st = Suspended \<Longrightarrow>
         cursor st \<le> length (string st) \<Longrightarrow>
         \<exists>spans. map span toks = map Some spans
           \<and> contiguous (int (cursor st)) spans (int (length (string st)))"
proof (induction fuel arbitrary: st toks)
  case 0
  then show ?case by simp
next
  case (Suc n)
  from spread_Suc_cases [OF Suc.prems(1,2)] show ?case
  proof
    assume "toks = [] \<and> \<not> hasMoreTokens st \<and> st' = st\<lparr>gen := Completed\<rparr>"
    with Suc.prems(3) have "toks = []" "cursor st = length (string st)"
      by (simp_all add: hasMoreTokens_def)
    then have "map span toks = map Some [] \<and> contiguous (int (cursor st)) [] (int (length (string st)))"
      by simp
    then show ?thesis by blast
  next
    assume "\<exists>tok rest st1. toks = tok # rest \<and> genTokens rx st = (Inr (Some tok), st1)
             \<and> spread n rx st1 = Some (Inr rest, st')"
    then obtain tok rest st1 where t: "toks = tok # rest"
      and g: "genTokens rx st = (Inr (Some tok), st1)"
      and r: "spread n rx st1 = Some (Inr rest, st')"
      by blast
    note y = genTokens_yield_span [of rx st tok st1, OF g]
    from y(5) Suc.prems(2) have gen1: "gen st1 = Suspended" by simp
    from y(7) within y(3) have le1: "cursor st1 \<le> length (string st1)" by simp
    from Suc.IH [OF r gen1 le1] obtain spans where
      s: "map span rest = map Some spans"
         "contiguous (int (cursor st1)) spans (int (length (string st1)))"
      by blast
    from s y(1,2,3) t
    have "map span toks = map Some ((int (cursor st), int (cursor st1)) # spans)
      \<and> contiguous (int (cursor st)) ((int (cursor st), int (cursor st1)) # spans)
           (int (length (string st)))"
      by simp
    then show ?thesis by blast
  qed
qed


subsection \<open>The example engine returns prefixes\<close>

lemma run_prefix: "run p s = Some m \<Longrightarrow> \<exists>rest. s = m @ rest"
proof -
  assume "run p s = Some m"
  then have "m = takeWhile p s"
    by (simp add: run_def split: list.splits)
  then have "s = m @ dropWhile p s" by simp
  then show ?thesis by blast
qed

lemma quoted_prefix: "quoted s = Some m \<Longrightarrow> \<exists>rest. s = m @ rest"
proof -
  assume q: "quoted s = Some m"
  then obtain cs where s: "s = dquote # cs"
    by (cases s) (auto simp add: quoted_def Let_def split: if_splits)
  let ?body = "takeWhile (\<lambda>x. x \<noteq> dquote) cs"
  let ?tail = "dropWhile (\<lambda>x. x \<noteq> dquote) cs"
  from q s have lt: "length ?body < length cs" and m: "m = dquote # ?body @ [dquote]"
    by (auto simp add: quoted_def Let_def split: if_splits)
  have cs: "cs = ?body @ ?tail" by simp
  with lt have "?tail \<noteq> []" by (metis append_Nil2 less_irrefl)
  then have "hd ?tail = dquote" using hd_dropWhile [of "\<lambda>x. x \<noteq> dquote" cs] by simp
  with \<open>?tail \<noteq> []\<close> have "?tail = dquote # tl ?tail" by (cases ?tail) simp_all
  with cs have "cs = ?body @ dquote # tl ?tail" by simp
  with s m have "s = m @ tl ?tail" by simp
  then show ?thesis by blast
qed

lemma example_rx_prefix: "example_rx re s = Some m \<Longrightarrow> \<exists>rest. s = m @ rest"
  by (auto simp add: example_rx_def dest: run_prefix quoted_prefix split: if_splits)


lemma example_rx_within: "\<forall>re s m. example_rx re s = Some m \<longrightarrow> length m \<le> length s"
proof (intro allI impI)
  fix re s m assume "example_rx re s = Some m"
  from example_rx_prefix [OF this] obtain rest where "s = m @ rest" by blast
  then show "length m \<le> length s" by simp
qed

subsection \<open>Claim C1: the first matching rule wins\<close>

text \<open>
  C1. At a scan position before the end of input where some rule matches, let \<open>(re, h)\<close>
  be the earliest rule whose pattern matches the remaining input (every rule of \<open>pre\<close>
  before it fails). Then the outcome of the production step, and the object it leaves,
  are exactly those of an engine whose spec is that single rule: the rules \<open>post\<close>
  after it have no influence, whatever they would match. When the handler returns a
  type \<open>t\<close>, the token emitted has type \<open>t\<close>, value the text \<open>m\<close> matched by
  \<open>re\<close>, and ends where \<open>m\<close> ends.
\<close>

theorem first_matching_rule_wins:
  assumes "hasMoreTokens st"
    and "spec st = pre @ (re, h) # post"
    and "\<forall>(r, g) \<in> set pre. rx r (drop (cursor st) (string st)) = None"
    and "rx re (drop (cursor st) (string st)) = Some m"
  shows "fst (genTokens rx st) = fst (genTokens rx (st\<lparr>spec := [(re, h)]\<rparr>))
       \<and> snd (genTokens rx st) = (snd (genTokens rx (st\<lparr>spec := [(re, h)]\<rparr>)))\<lparr>spec := spec st\<rparr>
       \<and> (\<forall>t. h m = HType t \<longrightarrow>
             (\<exists>tok. fst (genTokens rx st) = Inr (Some tok)
                  \<and> map_of tok ''type'' = Some (Str t)
                  \<and> map_of tok ''value'' = Some (Str m)
                  \<and> map_of tok ''endOffset'' = Some (Num (int (cursor st + length m)))))"
proof -
  let ?s = "drop (cursor st) (string st)"
  let ?one = "st\<lparr>spec := [(re, h)]\<rparr>"
  have full: "genTokens rx st =
      (let s = ?s; st' = snd (match rx s re st)
       in case h m of
            HNull \<Rightarrow>
              (Inl (throwUnexpectedToken st' (first_char s)
                      (currentLine st') (currentColumn st')), st')
          | HType t \<Rightarrow> (Inr (Some (toToken st' t (Some m))), st')
          | HArray v None \<Rightarrow>
              (Inl (throwUnexpectedToken st' (first_char s)
                      (currentLine st') (currentColumn st')), st')
          | HArray v (Some t) \<Rightarrow> (Inr (Some (toToken st' t (Some v))), st'))"
    using assms by (rule genTokens_hit)
  have "hasMoreTokens ?one" "spec ?one = [] @ (re, h) # []"
    "\<forall>(r, g) \<in> set ([] :: rule list). rx r (drop (cursor ?one) (string ?one)) = None"
    "rx re (drop (cursor ?one) (string ?one)) = Some m"
    using assms(1,4) by (simp_all add: hasMoreTokens_def)
  then have one: "genTokens rx ?one =
      (let s = drop (cursor ?one) (string ?one); st' = snd (match rx s re ?one)
       in case h m of
            HNull \<Rightarrow>
              (Inl (throwUnexpectedToken st' (first_char s)
                      (currentLine st') (currentColumn st')), st')
          | HType t \<Rightarrow> (Inr (Some (toToken st' t (Some m))), st')
          | HArray v None \<Rightarrow>
              (Inl (throwUnexpectedToken st' (first_char s)
                      (currentLine st') (currentColumn st')), st')
          | HArray v (Some t) \<Rightarrow> (Inr (Some (toToken st' t (Some v))), st'))"
    by (rule genTokens_hit)
  have restore: "(snd (match rx ?s re st))\<lparr>spec := spec st\<rparr> = snd (match rx ?s re st)"
    using match_Some_fields(1) [of rx re ?s m st] assms(4) by simp
  have eq1: "fst (genTokens rx st) = fst (genTokens rx ?one)"
    unfolding full one
    by (simp add: Let_def match_spec_update toToken_spec_update
          throwUnexpectedToken_spec_update split: handler_result.splits option.splits)
  have eq2: "snd (genTokens rx st) = (snd (genTokens rx ?one))\<lparr>spec := spec st\<rparr>"
    unfolding full one using restore
    by (simp add: Let_def match_spec_update split: handler_result.splits option.splits)
  have tok: "\<exists>tok. fst (genTokens rx st) = Inr (Some tok)
                  \<and> map_of tok ''type'' = Some (Str t)
                  \<and> map_of tok ''value'' = Some (Str m)
                  \<and> map_of tok ''endOffset'' = Some (Num (int (cursor st + length m)))"
    if "h m = HType t" for t
    unfolding full using that match_Some_fields(7) [of rx re ?s m st] assms(4)
    by (simp add: Let_def toToken_def)
  from eq1 eq2 tok show ?thesis by blast
qed

text \<open>
  On \<^verbatim>\<open>"2a"\<close> the rule \<^verbatim>\<open>\s+\<close> fails, \<^verbatim>\<open>\d+\<close> matches \<^verbatim>\<open>"2"\<close> and the
  later rule \<^verbatim>\<open>\w+\<close> would match the longer \<^verbatim>\<open>"2a"\<close>: the token is the
  NUMBER \<^verbatim>\<open>"2"\<close>.
\<close>

theorem first_matching_rule_wins_witness:
  "hasMoreTokens (fresh (normalized defaultSpec) ''2a'')
   \<and> spec (fresh (normalized defaultSpec) ''2a'')
       = [(anchored (fst ws_rule), snd ws_rule)] @ (anchored (fst number_rule), snd number_rule)
         # [(anchored (fst word_rule), snd word_rule)]
   \<and> example_rx (anchored (fst ws_rule)) ''2a'' = None
   \<and> example_rx (anchored (fst number_rule)) ''2a'' = Some ''2''
   \<and> example_rx (anchored (fst word_rule)) ''2a'' = Some ''2a''
   \<and> snd number_rule ''2'' = HType ''NUMBER''
   \<and> fst (genTokens example_rx (fresh (normalized defaultSpec) ''2a''))
       = fst (genTokens example_rx
                ((fresh (normalized defaultSpec) ''2a'')
                   \<lparr>spec := [(anchored (fst number_rule), snd number_rule)]\<rparr>))
   \<and> fst (genTokens example_rx (fresh (normalized defaultSpec) ''2a''))
       = Inr (Some [(''type'', Str ''NUMBER''), (''value'', Str ''2''),
                    (''startOffset'', Num 0), (''endOffset'', Num 1),
                    (''startLine'', Num 1), (''endLine'', Num 1),
                    (''startColumn'', Num 0), (''endColumn'', Num 1)])"
proof -
  let ?F = "fresh (normalized defaultSpec) ''2a''"
  have h1: "hasMoreTokens ?F"
    by (simp add: hasMoreTokens_def fresh_fields)
  have h2: "spec ?F = [(anchored (fst ws_rule), snd ws_rule)]
              @ (anchored (fst number_rule), snd number_rule)
              # [(anchored (fst word_rule), snd word_rule)]"
    by (simp add: fresh_fields normalized_defaultSpec)
  have ws: "example_rx (anchored (fst ws_rule)) ''2a'' = None"
    by (simp add: example_defs)
  have num: "example_rx (anchored (fst number_rule)) ''2a'' = Some ''2''"
    by (simp add: example_defs)
  have word: "example_rx (anchored (fst word_rule)) ''2a'' = Some ''2a''"
    by (simp add: example_defs)
  have ty: "snd number_rule ''2'' = HType ''NUMBER''"
    by (simp add: number_rule_def)
  have h3: "\<forall>(r, g) \<in> set [(anchored (fst ws_rule), snd ws_rule)].
              example_rx r (drop (cursor ?F) (string ?F)) = None"
    using ws by (simp add: fresh_fields)
  have h4: "example_rx (anchored (fst number_rule)) (drop (cursor ?F) (string ?F)) = Some ''2''"
    using num by (simp add: fresh_fields)
  note T = first_matching_rule_wins
    [of ?F "[(anchored (fst ws_rule), snd ws_rule)]" "anchored (fst number_rule)"
        "snd number_rule" "[(anchored (fst word_rule), snd word_rule)]" example_rx "''2''",
     OF h1 h2 h3 h4]
  have tok: "fst (genTokens example_rx ?F)
       = Inr (Some [(''type'', Str ''NUMBER''), (''value'', Str ''2''),
                    (''startOffset'', Num 0), (''endOffset'', Num 1),
                    (''startLine'', Num 1), (''endLine'', Num 1),
                    (''startColumn'', Num 0), (''endColumn'', Num 1)])"
    by (simp add: genTokens_def hasMoreTokens_def fresh_def match_def captureLocation_def
          toToken_def Let_def example_defs)
  from T h1 h2 ws num word ty tok show ?thesis
    by simp
qed

subsection \<open>Claim C2: the spans partition the input\<close>

text \<open>
  C2. Let the engine return only substrings of its subject (a match is never longer than
  the subject, as in JavaScript). If draining the generator of a freshly initialized
  object ends without an error, then every token has a \<^verbatim>\<open>startOffset\<close> and an
  \<^verbatim>\<open>endOffset\<close>, and the spans, in emission order, partition the input: the first
  starts at 0, each ends where the next starts, the last ends at the length of the
  input, and no span ends before it starts. (When there is no token the input is
  empty.)
\<close>

theorem spans_partition_input:
  fixes rx :: matcher
  assumes "\<forall>re s m. rx re s = Some m \<longrightarrow> length m \<le> length s"
    and "init s t = Inr st0"
    and "spread fuel rx st0 = Some (Inr toks, st')"
  shows "\<exists>spans. map span toks = map Some spans
           \<and> (spans = [] \<longrightarrow> s = [])
           \<and> (spans \<noteq> [] \<longrightarrow> fst (hd spans) = 0 \<and> snd (last spans) = int (length s))
           \<and> (\<forall>i. Suc i < length spans \<longrightarrow> snd (spans ! i) = fst (spans ! Suc i))
           \<and> (\<forall>(a, b) \<in> set spans. a \<le> b)"
proof -
  from init_Inr [OF assms(2)] have st0: "st0 = fresh (spec t) s" .
  have "gen st0 = Suspended" "cursor st0 \<le> length (string st0)"
    "cursor st0 = 0" "string st0 = s"
    unfolding st0 by (simp_all add: fresh_fields)
  with spread_spans [of rx fuel st0 toks st'] assms(1,3)
  obtain spans where sp: "map span toks = map Some spans"
    "contiguous 0 spans (int (length s))"
    by auto
  from contiguous_facts [OF sp(2)] sp(1) show ?thesis
    by auto
qed

text \<open>
  The run of the README: \<^verbatim>\<open>"Score 250"\<close> gives WORD, WS and NUMBER with the spans
  (0, 5), (5, 6) and (6, 9).
\<close>

theorem spans_partition_input_witness:
  "init ''Score 250'' (blank (normalized defaultSpec))
     = Inr (fresh (normalized defaultSpec) ''Score 250'')
   \<and> map_option fst (spread 4 example_rx (fresh (normalized defaultSpec) ''Score 250''))
     = Some (Inr expectedTokensWithLocations)
   \<and> map span expectedTokensWithLocations = map Some [(0, 5), (5, 6), (6, 9)]
   \<and> int (length ''Score 250'') = 9"
proof -
  let ?F = "fresh (normalized defaultSpec) ''Score 250''"
  have i: "init ''Score 250'' (blank (normalized defaultSpec)) = Inr ?F"
    by (simp add: init_fresh blank_def)
  have ev: "map_option fst (spread 4 example_rx ?F) = Some (Inr expectedTokensWithLocations)"
    by (simp add: eval_nat_numeral getNextToken_def engine_defs example_defs
          expectedTokensWithLocations_def)
  then obtain st' where run: "spread 4 example_rx ?F = Some (Inr expectedTokensWithLocations, st')"
    by (cases "spread 4 example_rx ?F") auto
  note T = spans_partition_input [of example_rx "''Score 250''" "blank (normalized defaultSpec)"
         ?F 4 expectedTokensWithLocations st', OF example_rx_within i run]
  have "map span expectedTokensWithLocations = map Some [(0, 5), (5, 6), (6, 9)]"
    by (simp add: span_def expectedTokensWithLocations_def)
  with T i ev show ?thesis by simp
qed

subsection \<open>Claim C3: concatenating the values\<close>




subsection \<open>Claim C4: when token production raises\<close>






subsection \<open>Claim C5: draining into a list\<close>

lemma getAllTokens_cached:
  "tokens st = Some toks \<Longrightarrow> getAllTokens fuel rx st = Some (Inr toks, st)"
  by (simp add: getAllTokens_def)

lemma getAllTokens_after_init:
  "init s t = Inr st0 \<Longrightarrow> getAllTokens fuel rx st0 = Some (Inr [], st0)"
  using init_Inr [of s t st0] by (simp add: getAllTokens_cached fresh_fields)

text \<open>
  C5 describes what \<^verbatim>\<open>getAllTokens\<close> is written to do; the code does not do it. The
  constructor sets \<^verbatim>\<open>_tokens\<close> to an empty array and \<^verbatim>\<open>init\<close> empties it, so it
  is never \<^verbatim>\<open>null\<close>, the guard \<^verbatim>\<open>this._tokens == null\<close> never holds, and the
  generator is never drained. On the spec of the README and \<^verbatim>\<open>"Score 250"\<close> the first
  call returns the empty list and leaves the object untouched, with
  \<^verbatim>\<open>hasMoreTokens()\<close> still true, although draining the generator would give the
  three tokens.
\<close>

theorem getAllTokens_returns_empty:
  "new_Tokenizer example_compile defaultSpec ''Score 250'' = Inr (fresh (normalized defaultSpec) ''Score 250'')
   \<and> getAllTokens 4 example_rx (fresh (normalized defaultSpec) ''Score 250'')
     = Some (Inr [], fresh (normalized defaultSpec) ''Score 250'')
   \<and> hasMoreTokens (fresh (normalized defaultSpec) ''Score 250'')
   \<and> map_option fst (spread 4 example_rx (fresh (normalized defaultSpec) ''Score 250''))
     = Some (Inr expectedTokensWithLocations)"
proof -
  let ?F = "fresh (normalized defaultSpec) ''Score 250''"
  have "getAllTokens 4 example_rx ?F = Some (Inr [], ?F)"
    by (simp add: getAllTokens_cached fresh_fields)
  moreover have "hasMoreTokens ?F"
    by (simp add: hasMoreTokens_def fresh_fields)
  moreover have "map_option fst (spread 4 example_rx ?F) = Some (Inr expectedTokensWithLocations)"
    by (simp add: eval_nat_numeral getNextToken_def engine_defs example_defs
          expectedTokensWithLocations_def)
  ultimately show ?thesis
    by (simp add: new_Tokenizer_fresh [OF processSpec_examples(1)])
qed

subsection \<open>Claim C6: location fields and options\<close>

lemma keys_toToken:
  "keys (toToken st t v)
     = [''type'', ''value'', ''startOffset'', ''endOffset'', ''startLine'', ''endLine'',
        ''startColumn'', ''endColumn'']"
  by (simp add: keys_def toToken_def)

lemma processSpec_drops_options:
  "processSpec compile (SpecObject rs opts) = processSpec compile (SpecArray rs)"
  by (simp add: processSpec_def)

text \<open>
  C6 describes an option the code does not have. \<^verbatim>\<open>_toToken\<close> writes the six
  location properties into every token, \<^verbatim>\<open>init\<close> has the input string as its only
  parameter, and \<^verbatim>\<open>_processSpec\<close> reads the \<^verbatim>\<open>rules\<close> of an object spec and nothing
  else. With \<^verbatim>\<open>captureLocations: false\<close> in the spec, the first token of
  \<^verbatim>\<open>"Score 250"\<close> still carries all six location properties.
\<close>

theorem token_always_has_locations:
  "new_Tokenizer example_compile example_lex ''Score 250'' = Inr (fresh (normalized defaultSpec) ''Score 250'')
   \<and> fst (getNextToken example_rx (fresh (normalized defaultSpec) ''Score 250''))
     = Inr (Some [(''type'', Str ''WORD''), (''value'', Str ''Score''),
                  (''startOffset'', Num 0), (''endOffset'', Num 5),
                  (''startLine'', Num 1), (''endLine'', Num 1),
                  (''startColumn'', Num 0), (''endColumn'', Num 5)])
   \<and> keys [(''type'', Str ''WORD''), (''value'', Str ''Score''),
            (''startOffset'', Num 0), (''endOffset'', Num 5),
            (''startLine'', Num 1), (''endLine'', Num 1),
            (''startColumn'', Num 0), (''endColumn'', Num 5)]
     = [''type'', ''value'', ''startOffset'', ''endOffset'', ''startLine'', ''endLine'',
        ''startColumn'', ''endColumn'']"
proof -
  have "new_Tokenizer example_compile example_lex ''Score 250''
               = Inr (fresh (normalized defaultSpec) ''Score 250'')"
    by (rule new_Tokenizer_fresh) (rule processSpec_examples)
  moreover have "fst (getNextToken example_rx (fresh (normalized defaultSpec) ''Score 250''))
     = Inr (Some [(''type'', Str ''WORD''), (''value'', Str ''Score''),
                  (''startOffset'', Num 0), (''endOffset'', Num 5),
                  (''startLine'', Num 1), (''endLine'', Num 1),
                  (''startColumn'', Num 0), (''endColumn'', Num 5)])"
    by (simp add: getNextToken_def engine_defs example_defs)
  ultimately show ?thesis
    by (simp add: keys_def)
qed

subsection \<open>Claim C7: spec normalization\<close>











subsection \<open>Claim C8: location tracking\<close>

text \<open>
  C8. For every match (the engine answers \<open>Some m\<close> for the rule's pattern), the object
  \<open>st'\<close> that \<^verbatim>\<open>_match\<close> leaves satisfies: the start offset is the cursor
  before the match and the start line and column are those current before it; the end
  offset is the start offset plus the length of \<open>m\<close>, and the cursor moves there; the
  line count has grown by the number of newlines in \<open>m\<close> and the end line is that
  count; when \<open>m\<close> has no newline the line-begin offset is unchanged, and when it
  has, the line-begin offset is the absolute offset just past the last newline of
  \<open>m\<close>; the end column is the end offset minus that line-begin offset, and it is the
  new current column. A token built from \<open>st'\<close> reports exactly these offsets, lines and
  columns.
\<close>

theorem captureLocation_tracks_match:
  assumes "rx re s = Some m"
  shows "(let st' = snd (match rx s re st) in
           tokenStartOffset st' = cursor st
         \<and> tokenStartLine st' = currentLine st
         \<and> tokenStartColumn st' = int (cursor st) - int (currentLineBeginOffset st)
         \<and> tokenEndOffset st' = tokenStartOffset st' + length m
         \<and> cursor st' = cursor st + length m
         \<and> currentLine st' = currentLine st + count_list m newline
         \<and> tokenEndLine st' = currentLine st'
         \<and> (newline \<notin> set m \<longrightarrow> currentLineBeginOffset st' = currentLineBeginOffset st)
         \<and> (\<forall>a b. m = a @ newline # b \<and> newline \<notin> set b \<longrightarrow>
                currentLineBeginOffset st' = cursor st + length a + 1
              \<and> tokenEndColumn st' = int (length b))
         \<and> tokenEndColumn st' = int (tokenEndOffset st') - int (currentLineBeginOffset st')
         \<and> currentColumn st' = tokenEndColumn st'
         \<and> (\<forall>t v. toToken st' t (Some v) =
               [(''type'', Str t), (''value'', Str v),
                (''startOffset'', Num (int (cursor st))),
                (''endOffset'', Num (int (cursor st + length m))),
                (''startLine'', Num (int (currentLine st))),
                (''endLine'', Num (int (currentLine st + count_list m newline))),
                (''startColumn'', Num (int (cursor st) - int (currentLineBeginOffset st))),
                (''endColumn'', Num (int (cursor st + length m)
                                      - int (currentLineBeginOffset st')))]))"
proof -
  have last_nl: "currentLineBeginOffset (snd (match rx s re st)) = cursor st + length a + 1
      \<and> tokenEndColumn (snd (match rx s re st)) = int (length b)"
    if "m = a @ newline # b" and "newline \<notin> set b" for a b
  proof -
    from assms that have "rx re s = Some (a @ newline # b)" by simp
    from match_Some_lineBegin_last [of rx re s a b st] this that(2)
    have lb: "currentLineBeginOffset (snd (match rx s re st)) = cursor st + length a + 1" .
    with match_Some_fields(12) [of rx re s m st] assms that(1) show ?thesis by simp
  qed
  have tok: "toToken (snd (match rx s re st)) t (Some v) =
               [(''type'', Str t), (''value'', Str v),
                (''startOffset'', Num (int (cursor st))),
                (''endOffset'', Num (int (cursor st + length m))),
                (''startLine'', Num (int (currentLine st))),
                (''endLine'', Num (int (currentLine st + count_list m newline))),
                (''startColumn'', Num (int (cursor st) - int (currentLineBeginOffset st))),
                (''endColumn'', Num (int (cursor st + length m)
                                      - int (currentLineBeginOffset (snd (match rx s re st)))))]"
    for t v
    using match_Some_fields [of rx re s m st] assms by (simp add: toToken_def)
  show ?thesis
    unfolding Let_def
    using match_Some_fields [of rx re s m st] match_Some_lineBegin_none [of rx re s m st]
      assms last_nl tok
    by simp
qed

text \<open>
  The example of the claim: one rule that matches the whole of \<^verbatim>\<open>"a\nbb"\<close>.
  The token that the step emits starts on line 1, ends on line 2, and its end column 2
  counts the two characters after the newline.
\<close>

theorem captureLocation_tracks_match_witness:
  "(let re = anchored (fst any_rule); F = fresh (normalized (SpecArray [any_rule])) two_lines;
        st' = snd (match example_rx two_lines re F)
    in example_rx re two_lines = Some two_lines
     \<and> two_lines = [CHR ''a''] @ newline # ''bb''
     \<and> tokenStartOffset st' = 0 \<and> tokenEndOffset st' = 4
     \<and> tokenStartLine st' = 1 \<and> tokenEndLine st' = 2
     \<and> tokenStartColumn st' = 0 \<and> tokenEndColumn st' = 2
     \<and> currentLineBeginOffset st' = 2 \<and> currentColumn st' = 2 \<and> cursor st' = 4
     \<and> genTokens example_rx F
         = (Inr (Some [(''type'', Str ''TEXT''), (''value'', Str two_lines),
                       (''startOffset'', Num 0), (''endOffset'', Num 4),
                       (''startLine'', Num 1), (''endLine'', Num 2),
                       (''startColumn'', Num 0), (''endColumn'', Num 2)]), st'))"
proof -
  let ?re = "anchored (fst any_rule)"
  let ?F = "fresh (normalized (SpecArray [any_rule])) two_lines"
  let ?S' = "snd (match example_rx two_lines ?re ?F)"
  have m: "example_rx ?re two_lines = Some two_lines"
    by (simp add: example_defs any_rule_def two_lines_def)
  have split: "two_lines = [CHR ''a''] @ newline # ''bb''"
    by (simp add: two_lines_def)
  have nl: "newline \<notin> set ''bb''"
    by (simp add: newline_def)
  have len: "length two_lines = 4" "count_list two_lines newline = 1"
    by (simp_all add: two_lines_def newline_def)
  note T = captureLocation_tracks_match [of example_rx ?re two_lines two_lines ?F, OF m]
  from T have "\<forall>a b. two_lines = a @ newline # b \<and> newline \<notin> set b \<longrightarrow>
      currentLineBeginOffset ?S' = cursor ?F + length a + 1
      \<and> tokenEndColumn ?S' = int (length b)"
    unfolding Let_def by blast
  with split nl have last: "currentLineBeginOffset ?S' = cursor ?F + length [CHR ''a''] + 1
      \<and> tokenEndColumn ?S' = int (length ''bb'')"
    by blast
  from T have tok: "toToken ?S' ''TEXT'' (Some two_lines) =
               [(''type'', Str ''TEXT''), (''value'', Str two_lines),
                (''startOffset'', Num (int (cursor ?F))),
                (''endOffset'', Num (int (cursor ?F + length two_lines))),
                (''startLine'', Num (int (currentLine ?F))),
                (''endLine'', Num (int (currentLine ?F + count_list two_lines newline))),
                (''startColumn'', Num (int (cursor ?F) - int (currentLineBeginOffset ?F))),
                (''endColumn'', Num (int (cursor ?F + length two_lines)
                                      - int (currentLineBeginOffset ?S')))]"
    unfolding Let_def by blast
  have hit: "genTokens example_rx ?F = (Inr (Some (toToken ?S' ''TEXT'' (Some two_lines))), ?S')"
    using genTokens_hit [of ?F "[]" ?re "snd any_rule" "[]" example_rx two_lines] m len
    by (simp add: hasMoreTokens_def fresh_fields example_defs any_rule_def Let_def)
  from T last len m split tok hit show ?thesis
    by (simp add: Let_def fresh_fields)
qed

subsection \<open>Claim C9: the diagnostic\<close>

lemma split_newline_nonempty: "split_newline s \<noteq> []"
  by (induction s) simp_all

lemma split_newline_length: "length (split_newline s) = count_list s newline + 1"
proof (induction s)
  case Nil
  then show ?case by simp
next
  case (Cons c s)
  with split_newline_nonempty [of s] show ?case
    by (cases "split_newline s") simp_all
qed

lemma split_newline_pieces: "l \<in> set (split_newline s) \<Longrightarrow> newline \<notin> set l"
proof (induction s arbitrary: l)
  case Nil
  then show ?case by simp
next
  case (Cons c s)
  with split_newline_nonempty [of s] show ?case
    by (cases "split_newline s") (auto split: if_splits)
qed

text \<open>
  C9, as amended. The source line is piece number \<open>line - 1\<close> of the input split on
  newlines. When that piece exists and is not empty (and the column is not negative),
  the diagnostic is two newlines, the source line, a newline, as many spaces as the
  column, a caret, a newline, and then the message
  \<^verbatim>\<open>Unexpected token: "<char>" at <line>:<column>\<close> with its newline. When the piece
  does not exist or is the empty line, the diagnostic is the message alone.
\<close>

theorem throwUnexpectedToken_message:
  \<open>(1 \<le> line \<and> line \<le> length (split_newline (string st))
      \<and> split_newline (string st) ! (line - 1) \<noteq> [] \<and> 0 \<le> column
     \<longrightarrow> throwUnexpectedToken st symbol line column
           = SyntaxError ([newline, newline] @ split_newline (string st) ! (line - 1)
                          @ [newline] @ replicate (nat column) CHR '' '' @ ''^'' @ [newline]
                          @ ''Unexpected token: "'' @ symbol @ ''" at '' @ show_nat line
                          @ '':'' @ show_int column @ [newline]))
   \<and> (line = 0 \<or> length (split_newline (string st)) < line
      \<or> split_newline (string st) ! (line - 1) = []
     \<longrightarrow> throwUnexpectedToken st symbol line column
           = SyntaxError (''Unexpected token: "'' @ symbol @ ''" at '' @ show_nat line
                          @ '':'' @ show_int column @ [newline]))\<close>
  by (cases line) (auto simp add: throwUnexpectedToken_def Let_def)

text \<open>
  The example of the claim: the spec of the README on \<^verbatim>\<open>"Score: 250"\<close>, after the WORD
  \<^verbatim>\<open>"Score"\<close>. The step raises the diagnostic for \<^verbatim>\<open>":"\<close> at line 1, column 5,
  with the source line and five spaces before the caret. Called with line 2, which the
  input does not have, \<^verbatim>\<open>throwUnexpectedToken\<close> gives the message alone.
\<close>

theorem throwUnexpectedToken_message_witness:
  \<open>(let S = snd (genTokens example_rx (fresh (normalized defaultSpec) ''Score: 250''))
    in string S = ''Score: 250'' \<and> currentLine S = 1 \<and> currentColumn S = 5
     \<and> first_char (drop (cursor S) (string S)) = '':''
     \<and> split_newline (string S) = [''Score: 250'']
     \<and> fst (genTokens example_rx S) = Inl (throwUnexpectedToken S '':'' 1 5)
     \<and> throwUnexpectedToken S '':'' 1 5
         = SyntaxError ([newline, newline] @ ''Score: 250'' @ [newline]
                        @ ''     ^'' @ [newline]
                        @ ''Unexpected token: ":" at 1:5'' @ [newline])
     \<and> throwUnexpectedToken S '':'' 2 5
         = SyntaxError (''Unexpected token: ":" at 2:5'' @ [newline]))\<close>
proof -
  let ?S = "snd (genTokens example_rx (fresh (normalized defaultSpec) ''Score: 250''))"
  have S: "?S = (fresh (normalized defaultSpec) ''Score: 250'')
                  \<lparr>cursor := 5, currentColumn := 5, tokenEndOffset := 5, tokenEndColumn := 5\<rparr>"
    by (simp add: engine_defs example_defs)
  have f: "string ?S = ''Score: 250''" "currentLine ?S = 1" "currentColumn ?S = 5"
    "first_char (drop (cursor ?S) (string ?S)) = '':''"
    unfolding S by (simp_all add: fresh_def first_char_def)
  have sp: "split_newline (string ?S) = [''Score: 250'']"
    unfolding f(1) by (simp add: newline_def)
  have g: \<open>fst (genTokens example_rx ?S) = Inl (throwUnexpectedToken ?S '':'' 1 5)\<close>
    unfolding S by (simp add: engine_defs example_defs eval_nat_numeral)
  note T1 = throwUnexpectedToken_message [of 1 ?S 5 "'':''"]
  note T2 = throwUnexpectedToken_message [of 2 ?S 5 "'':''"]
  from T1 sp have m1: \<open>throwUnexpectedToken ?S '':'' 1 5
         = SyntaxError ([newline, newline] @ ''Score: 250'' @ [newline]
                        @ ''     ^'' @ [newline]
                        @ ''Unexpected token: ":" at 1:5'' @ [newline])\<close>
    by (simp add: show_int_def eval_nat_numeral)
  from T2 sp have m2: \<open>throwUnexpectedToken ?S '':'' 2 5
         = SyntaxError (''Unexpected token: ":" at 2:5'' @ [newline])\<close>
    by (simp add: show_int_def)
  from f sp g m1 m2 show ?thesis
    unfolding Let_def by blast
qed

text \<open>
  C9 as stated fails on an empty source line. With the single rule for numbers, the
  input \<^verbatim>\<open>"\n1"\<close> fails at its first character, the newline, on line 1. Line 1 is
  there (it is the empty piece before the newline), and the diagnostic is the message
  alone: no source line, no caret.
\<close>

theorem throwUnexpectedToken_message_counterexample:
  \<open>split_newline [newline, CHR ''1''] = [[], ''1'']
   \<and> fst (genTokens example_rx
            (fresh (normalized (SpecArray [number_rule])) [newline, CHR ''1'']))
     = Inl (SyntaxError (''Unexpected token: "'' @ [newline] @ ''" at 1:0'' @ [newline]))
   \<and> CHR ''^'' \<notin> set (''Unexpected token: "'' @ [newline] @ ''" at 1:0'' @ [newline])\<close>
  by (simp add: engine_defs example_defs)

subsection \<open>Claim C10: after an error the generator is finished\<close>

text \<open>
  C10, as amended. After \<^verbatim>\<open>getNextToken\<close> has raised, the generator is completed:
  every later call, however many came before it and whatever the engine would match,
  returns \<^verbatim>\<open>undefined\<close> and leaves the object as it is, until \<^verbatim>\<open>init\<close> or
  \<^verbatim>\<open>reset\<close> installs a new generator at the start of the input.
  \<^verbatim>\<open>hasMoreTokens()\<close> is still true when the error was that no rule matched; when the
  handler of the first matching rule gave no type, the match has been consumed and
  \<^verbatim>\<open>hasMoreTokens()\<close> is true only if that match ended before the end of the input.
\<close>

theorem generator_finished_after_error:
  fixes rx :: matcher
  assumes "getNextToken rx st = (Inl e, st')"
  shows "gen st' = Completed
       \<and> (\<forall>rx' n. getNextToken rx' (((\<lambda>s. snd (getNextToken rx' s)) ^^ n) st')
                     = (Inr None, st'))
       \<and> ((\<forall>(r, g) \<in> set (spec st). rx r (drop (cursor st) (string st)) = None)
            \<longrightarrow> hasMoreTokens st')
       \<and> (\<forall>pre re h post m.
             spec st = pre @ (re, h) # post
           \<and> (\<forall>(r, g) \<in> set pre. rx r (drop (cursor st) (string st)) = None)
           \<and> rx re (drop (cursor st) (string st)) = Some m
           \<longrightarrow> (hasMoreTokens st' \<longleftrightarrow> cursor st + length m < length (string st)))
       \<and> (\<forall>s st''. init s st' = Inr st'' \<longrightarrow> gen st'' = Suspended \<and> cursor st'' = 0)
       \<and> (\<forall>st''. reset st' = Inr st'' \<longrightarrow>
             gen st'' = Suspended \<and> cursor st'' = 0 \<and> string st'' = string st)"
proof -
  let ?s = "drop (cursor st) (string st)"
  from getNextToken_Inl [OF assms] obtain st1 where
    g: "genTokens rx st = (Inl e, st1)" and st': "st' = st1\<lparr>gen := Completed\<rparr>"
    by blast
  have more: "hasMoreTokens st"
    using g by (cases "hasMoreTokens st") (simp_all add: genTokens_done)
  have c: "gen st' = Completed" unfolding st' by simp
  have again: "getNextToken rx' (((\<lambda>s. snd (getNextToken rx' s)) ^^ n) st') = (Inr None, st')"
    for rx' n
    using c by (simp add: funpow_getNextToken_Completed getNextToken_Completed)
  have nm: "hasMoreTokens st'" if "\<forall>(r, g) \<in> set (spec st). rx r ?s = None"
  proof -
    from genTokens_no_match [of st rx] more that g have "st1 = st" by simp
    with more show ?thesis unfolding st' by (simp add: hasMoreTokens_def)
  qed
  have hit: "hasMoreTokens st' \<longleftrightarrow> cursor st + length m < length (string st)"
    if "spec st = pre @ (re, h) # post \<and> (\<forall>(r, g) \<in> set pre. rx r ?s = None)
        \<and> rx re ?s = Some m" for pre re h post m
  proof -
    from that have d: "spec st = pre @ (re, h) # post"
      "\<forall>(r, g) \<in> set pre. rx r ?s = None" "rx re ?s = Some m" by simp_all
    from genTokens_hit [of st pre re h post rx m] more d g
    have "st1 = snd (match rx ?s re st)"
      by (cases "h m" rule: no_type.cases) (simp_all add: Let_def)
    with match_Some_fields(3,5) [of rx re ?s m st] d(3)
    show ?thesis unfolding st' by (simp add: hasMoreTokens_def)
  qed
  have str: "string st' = string st"
  proof -
    from first_match_cases [of "spec st" rx ?s] show ?thesis
    proof
      assume "\<forall>(r, g) \<in> set (spec st). rx r ?s = None"
      from genTokens_no_match [of st rx] more this g show ?thesis unfolding st' by simp
    next
      assume "\<exists>pre re h post m. spec st = pre @ (re, h) # post \<and>
        (\<forall>(r, g) \<in> set pre. rx r ?s = None) \<and> rx re ?s = Some m"
      then obtain pre re h post m where d: "spec st = pre @ (re, h) # post"
        "\<forall>(r, g) \<in> set pre. rx r ?s = None" "rx re ?s = Some m" by blast
      from genTokens_hit [of st pre re h post rx m] more d g
      have "st1 = snd (match rx ?s re st)"
        by (cases "h m" rule: no_type.cases) (simp_all add: Let_def)
      with match_Some_fields(3) [of rx re ?s m st] d(3)
      show ?thesis unfolding st' by simp
    qed
  qed
  have ini: "gen st'' = Suspended \<and> cursor st'' = 0" if "init s st' = Inr st''" for s st''
    using init_Inr [OF that] by (simp add: fresh_fields)
  have res: "gen st'' = Suspended \<and> cursor st'' = 0 \<and> string st'' = string st"
    if "reset st' = Inr st''" for st''
    using init_Inr [of "string st'" st' st''] that str by (simp add: reset_def fresh_fields)
  from c again nm hit ini res show ?thesis by blast
qed

text \<open>
  The spec of the README on \<^verbatim>\<open>"Score: 250"\<close>: the second call raises at \<^verbatim>\<open>":"\<close>.
  After it the generator is completed, \<^verbatim>\<open>hasMoreTokens()\<close> is true, the next calls
  return \<^verbatim>\<open>undefined\<close>, and \<^verbatim>\<open>reset\<close> starts over.
\<close>

theorem generator_finished_after_error_witness:
  \<open>(let S = snd (getNextToken example_rx (fresh (normalized defaultSpec) ''Score: 250''));
        S' = snd (getNextToken example_rx S)
    in getNextToken example_rx S
         = (Inl (SyntaxError ([newline, newline] @ ''Score: 250'' @ [newline]
                              @ ''     ^'' @ [newline]
                              @ ''Unexpected token: ":" at 1:5'' @ [newline])), S')
     \<and> example_rx (anchored (fst ws_rule)) (drop (cursor S) (string S)) = None
     \<and> example_rx (anchored (fst number_rule)) (drop (cursor S) (string S)) = None
     \<and> example_rx (anchored (fst word_rule)) (drop (cursor S) (string S)) = None
     \<and> gen S' = Completed \<and> hasMoreTokens S'
     \<and> getNextToken example_rx S' = (Inr None, S')
     \<and> getNextToken example_rx (snd (getNextToken example_rx S')) = (Inr None, S')
     \<and> reset S' = Inr (fresh (normalized defaultSpec) ''Score: 250''))\<close>
proof -
  let ?S = "snd (getNextToken example_rx (fresh (normalized defaultSpec) ''Score: 250''))"
  let ?S' = "snd (getNextToken example_rx ?S)"
  let ?e = \<open>SyntaxError ([newline, newline] @ ''Score: 250'' @ [newline]
                              @ ''     ^'' @ [newline]
                              @ ''Unexpected token: ":" at 1:5'' @ [newline])\<close>
  have S: "?S = (fresh (normalized defaultSpec) ''Score: 250'')
                  \<lparr>cursor := 5, currentColumn := 5, tokenEndOffset := 5, tokenEndColumn := 5\<rparr>"
    by (simp add: getNextToken_def engine_defs example_defs)
  have err: "fst (getNextToken example_rx ?S) = Inl ?e"
    unfolding S by (simp add: getNextToken_def engine_defs example_defs eval_nat_numeral)
  then have run: "getNextToken example_rx ?S = (Inl ?e, ?S')"
    by (simp add: prod_eq_iff)
  have miss: "example_rx (anchored (fst ws_rule)) (drop (cursor ?S) (string ?S)) = None"
    "example_rx (anchored (fst number_rule)) (drop (cursor ?S) (string ?S)) = None"
    "example_rx (anchored (fst word_rule)) (drop (cursor ?S) (string ?S)) = None"
    unfolding S by (simp_all add: fresh_def example_defs)
  have no_match: "\<forall>(r, g) \<in> set (spec ?S). example_rx r (drop (cursor ?S) (string ?S)) = None"
    using miss unfolding S
    by (simp add: fresh_def normalized_defaultSpec)
  note T = generator_finished_after_error [of example_rx ?S ?e ?S', OF run]
  from T have c: "gen ?S' = Completed" by blast
  from T no_match have more: "hasMoreTokens ?S'" by blast
  from T have "getNextToken example_rx (((\<lambda>s. snd (getNextToken example_rx s)) ^^ 0) ?S')
                 = (Inr None, ?S')"
    and "getNextToken example_rx (((\<lambda>s. snd (getNextToken example_rx s)) ^^ 1) ?S')
                 = (Inr None, ?S')"
    by blast+
  then have again: "getNextToken example_rx ?S' = (Inr None, ?S')"
    "getNextToken example_rx (snd (getNextToken example_rx ?S')) = (Inr None, ?S')"
    by simp_all
  have tk: "tokens ?S' = Some []" "spec ?S' = normalized defaultSpec"
    "string ?S' = ''Score: 250''"
    unfolding S by (simp_all add: getNextToken_def engine_defs example_defs)
  have res: "reset ?S' = Inr (fresh (normalized defaultSpec) ''Score: 250'')"
    using init_fresh [of ?S' "[]" "string ?S'"] tk by (simp add: reset_def)
  from run miss c more again res show ?thesis
    unfolding Let_def by blast
qed

text \<open>
  C10 as stated fails when the error comes from a handler. The only rule matches the
  whole of \<^verbatim>\<open>"ab"\<close>, its handler returns \<^verbatim>\<open>null\<close>, the call raises, and the cursor
  is already at the end: \<^verbatim>\<open>hasMoreTokens()\<close> is false.
\<close>

theorem generator_finished_after_error_counterexample:
  \<open>fst (getNextToken example_rx (fresh (normalized (SpecArray [null_rule])) ''ab''))
     = Inl (SyntaxError ([newline, newline] @ ''ab'' @ [newline] @ ''  ^'' @ [newline]
                         @ ''Unexpected token: "a" at 1:2'' @ [newline]))
   \<and> \<not> hasMoreTokens
         (snd (getNextToken example_rx (fresh (normalized (SpecArray [null_rule])) ''ab'')))\<close>
  by (simp add: getNextToken_def engine_defs example_defs null_rule_def eval_nat_numeral)

end
